theory Spec2Isabelle
  imports Complex_Main
begin

section \<open>Python string primitives used by the digest\<close>

text \<open>
  Python strings are modelled as \<open>string\<close> (lists of characters); \<open>len\<close> is \<open>length\<close>.
  \<open>s[:n]\<close> is Python's prefix slice: a non-negative \<open>n\<close> keeps the first \<open>n\<close> characters,
  a negative \<open>n\<close> drops the last \<open>-n\<close>.
\<close>

definition slice_to :: "string \<Rightarrow> int \<Rightarrow> string" where
  "slice_to s n = (if 0 \<le> n then take (nat n) s else take (nat (int (length s) + n)) s)"

text \<open>\<open>s.rfind(c)\<close>: the highest index holding \<open>c\<close>, or \<open>-1\<close> when \<open>c\<close> does not occur.\<close>

definition rfind :: "string \<Rightarrow> char \<Rightarrow> int" where
  "rfind s c =
     (if c \<in> set s then int (length s) - 1 - int (length (takeWhile (\<lambda>x. x \<noteq> c) (rev s)))
      else - 1)"

section \<open>Truncator: \<open>truncate_summary\<close>\<close>

text \<open>
  The test \<open>cut_point > max_length * 0.5\<close> compares an integer with half of an integer;
  it is written here as \<open>max_length < 2 * cut_point\<close>, which is the same comparison
  without the division.
\<close>

definition truncate_summary :: "string \<Rightarrow> int \<Rightarrow> string" where
  "truncate_summary text max_length =
     (if text = [] \<or> int (length text) \<le> max_length then text
      else
        let truncated = slice_to text max_length;
            last_period = rfind truncated (CHR ''.'');
            last_question = rfind truncated (CHR ''?'');
            last_exclaim = rfind truncated (CHR ''!'');
            cut_point = max (max last_period last_question) last_exclaim
        in if max_length < 2 * cut_point then slice_to text (cut_point + 1)
           else
             let last_space = rfind truncated (CHR '' '')
             in if 0 < last_space then slice_to text last_space @ ''...''
                else truncated @ ''...'')"

section \<open>HTML cleaning: \<open>clean_html\<close>\<close>

text \<open>
  Characters are the code points below 256. \<open>isspace\<close> lists the ones that Python's
  \<open>\s\<close> and \<open>str.strip\<close> treat as whitespace in that range.
\<close>

definition isspace :: "char \<Rightarrow> bool" where
  "isspace c = (of_char c \<in> {9, 10, 11, 12, 13, 28, 29, 30, 31, 32, 133, 160 :: nat})"

text \<open>\<open>re.sub(r'\s+', ' ', text)\<close>: every maximal run of whitespace becomes one space.\<close>

function collapse_ws :: "string \<Rightarrow> string" where
  "collapse_ws [] = []"
| "collapse_ws (c # cs) =
     (if isspace c then CHR '' '' # collapse_ws (dropWhile isspace cs) else c # collapse_ws cs)"
  by pat_completeness auto
termination
  by (relation "measure length") (auto simp: length_dropWhile_le less_Suc_eq_le)

definition strip :: "string \<Rightarrow> string" where
  "strip s = rev (dropWhile isspace (rev (dropWhile isspace s)))"

text \<open>
  \<open>clean_html\<close> parses its argument with BeautifulSoup, removes the script, style, nav,
  header and footer elements and reads the remaining text. That library step is the
  parameter \<open>soup_text\<close>; the whitespace clean-up after it is the function's own.
\<close>

definition clean_html :: "(string \<Rightarrow> string) \<Rightarrow> string \<Rightarrow> string" where
  "clean_html soup_text html_text =
     (if html_text = [] then [] else strip (collapse_ws (soup_text html_text)))"

section \<open>Records\<close>

text \<open>
  An article is the dictionary the connectors build. \<open>published\<close> is a naive datetime,
  counted in microseconds (its resolution). Per-source extras (\<open>hn_comments\<close>, ...) and the
  \<open>score\<close> key added by \<open>main\<close> live in the record's extension.
\<close>

record article =
  title :: string
  link :: string
  summary :: string
  source :: string
  category :: string
  published :: int
  engagement :: int
  needs_summary :: bool

record scored_article = article +
  score :: int

definition CATEGORY_NEW_TECH :: string where "CATEGORY_NEW_TECH = ''New Technology''"
definition CATEGORY_RESEARCH :: string where "CATEGORY_RESEARCH = ''Research''"
definition CATEGORY_INDUSTRY :: string where "CATEGORY_INDUSTRY = ''Industry & Macro''"
definition CATEGORY_COMMUNITY :: string where "CATEGORY_COMMUNITY = ''Community Highlights''"

section \<open>Fetching one summary: \<open>fetch_article_summary\<close>\<close>

text \<open>
  What \<open>requests.get\<close> and the BeautifulSoup queries of \<open>fetch_article_summary\<close> deliver for
  a URL: the status code, the \<open>content\<close> attribute of \<open>meta name=description\<close> and of
  \<open>meta property=og:description\<close> (\<open>None\<close> when the tag or the attribute is missing), and
  \<open>str(p)\<close> for the paragraphs of the first of \<open>article\<close>, \<open>main\<close>, \<open>body\<close> that exists
  (\<open>None\<close> when there is none).
\<close>

record response =
  status_code :: int
  meta_description :: "string option"
  og_description :: "string option"
  paragraphs :: "string list option"

text \<open>
  The network, as the enrichment sees it. \<open>requests_get url = None\<close> stands for any
  exception raised inside the \<open>try\<close> block (connection error, timeout, parser failure).
  \<open>completes_ms k\<close> is the time, in milliseconds after \<open>as_completed\<close> starts waiting, at
  which the future of the \<open>k\<close>-th submitted task completes.
\<close>

record web =
  requests_get :: "string \<Rightarrow> response option"
  get_text :: "string \<Rightarrow> string"
  completes_ms :: "nat \<Rightarrow> nat"

text \<open>\<open>tag and tag.get("content")\<close> is truthy exactly when this string is non-empty.\<close>

definition attr_content :: "string option \<Rightarrow> string" where
  "attr_content v = (case v of None \<Rightarrow> [] | Some c \<Rightarrow> c)"

text \<open>The loop over \<open>paragraphs[:3]\<close>; \<open>truncate_summary(text)\<close> uses the default budget 280.\<close>

fun first_paragraph :: "(string \<Rightarrow> string) \<Rightarrow> string list \<Rightarrow> string" where
  "first_paragraph soup_text [] = []"
| "first_paragraph soup_text (p # ps) =
     (let text = clean_html soup_text p
      in if 100 < length text then truncate_summary text 280
         else first_paragraph soup_text ps)"

definition fetch_article_summary :: "web \<Rightarrow> string \<Rightarrow> string" where
  "fetch_article_summary w url =
     (case requests_get w url of
        None \<Rightarrow> []
      | Some resp \<Rightarrow>
          if status_code resp \<noteq> 200 then []
          else if attr_content (meta_description resp) \<noteq> []
            then clean_html (get_text w) (attr_content (meta_description resp))
          else if attr_content (og_description resp) \<noteq> []
            then clean_html (get_text w) (attr_content (og_description resp))
          else (case paragraphs resp of
                  None \<Rightarrow> []
                | Some ps \<Rightarrow> first_paragraph (get_text w) (take 3 ps)))"

section \<open>Enricher: \<open>enrich_summaries\<close>\<close>

text \<open>Python's \<open>sub in s\<close> on strings.\<close>

fun is_substring :: "string \<Rightarrow> string \<Rightarrow> bool" where
  "is_substring sub [] = (sub = [])"
| "is_substring sub (c # cs) = (take (length sub) (c # cs) = sub \<or> is_substring sub cs)"

definition fetch_one :: "web \<Rightarrow> 'a article_scheme \<Rightarrow> 'a article_scheme" where
  "fetch_one w a =
     (if is_substring ''reddit.com'' (link a) \<or> is_substring ''news.ycombinator.com'' (link a)
      then a
      else
        let s = fetch_article_summary w (link a)
        in if s \<noteq> [] then a\<lparr>summary := s, needs_summary := False\<rparr> else a)"

text \<open>
  The positions of the list that get a task: the records with \<open>needs_summary\<close> set and a
  non-empty link, the first 20 of them.
\<close>

definition enrich_batch :: "'a article_scheme list \<Rightarrow> nat list" where
  "enrich_batch articles =
     take 20 (filter (\<lambda>i. needs_summary (articles ! i) \<and> link (articles ! i) \<noteq> [])
                [0..<length articles])"

text \<open>
  The dictionaries are mutated in place, so the outcome of a call is the list as the
  caller sees it afterwards together with the exception that left the function, if any.

  \<open>as_completed(futures, timeout=30)\<close> raises \<open>TimeoutError\<close> from its iterator when the
  deadline passes with a future still pending. The \<open>try\<close> of the loop encloses only
  \<open>future.result()\<close>, so that exception leaves the \<open>for\<close> statement and the \<open>with\<close> block.
  Leaving the \<open>with\<close> block calls \<open>shutdown(wait=True)\<close>: every submitted task has run
  by the time control is back with the caller, whatever the outcome. Each task writes
  only the record it was given.
\<close>

datatype exn = TimeoutError

record 'a outcome =
  articles_after :: "'a list"
  raised :: "exn option"

definition batch_timeout_ms :: nat where
  "batch_timeout_ms = 30000"

definition enrich_summaries :: "web \<Rightarrow> 'a article_scheme list \<Rightarrow> 'a article_scheme outcome" where
  "enrich_summaries w articles =
     (let batch = enrich_batch articles
      in if batch = [] then \<lparr>articles_after = articles, raised = None\<rparr>
         else
           \<lparr>articles_after = fold (\<lambda>i store. store[i := fetch_one w (store ! i)]) batch articles,
            raised = (if list_ex (\<lambda>k. batch_timeout_ms < completes_ms w k) [0..<length batch]
                      then Some TimeoutError else None)\<rparr>)"

section \<open>Scorer: \<open>calculate_score\<close>\<close>

definition high_quality_sources :: "string list" where
  "high_quality_sources =
     [''OpenAI Blog'', ''Anthropic Research'', ''Google AI Blog'', ''DeepMind Blog'',
      ''MIT Tech Review'', ''arXiv'', ''Papers With Code'']"

text \<open>The dictionary \<open>RSS_FEEDS_NEWS\<close>; \<open>source in RSS_FEEDS_NEWS\<close> tests its keys.\<close>

definition RSS_FEEDS_NEWS :: "(string \<times> string) list" where
  "RSS_FEEDS_NEWS =
     [(''TechCrunch AI'', ''https://techcrunch.com/tag/artificial-intelligence/feed/''),
      (''VentureBeat AI'', ''https://venturebeat.com/ai/feed/''),
      (''The Verge AI'', ''https://www.theverge.com/ai-artificial-intelligence/rss/index.xml''),
      (''Ars Technica AI'', ''https://arstechnica.com/tag/artificial-intelligence/feed/''),
      (''MIT Tech Review'', ''https://www.technologyreview.com/topic/artificial-intelligence/feed/''),
      (''Wired AI'', ''https://www.wired.com/feed/tag/ai/latest/rss'')]"

definition hour_us :: int where
  "hour_us = 3600 * 1000000"

text \<open>
  \<open>now\<close> is the value of \<open>datetime.now()\<close> read by the function, in microseconds like
  \<open>published\<close>. \<open>hours_old <= h\<close> compares \<open>(now - published).total_seconds() / 3600\<close> with
  a whole number of hours, which is \<open>now - published \<le> h * hour_us\<close> on the microsecond
  counts. The score is a float holding a sum of whole numbers; it is an \<open>int\<close> here.
\<close>

definition calculate_score :: "int \<Rightarrow> 'a article_scheme \<Rightarrow> int" where
  "calculate_score now a =
     (let score = 0;
          age = now - published a;
          score = score + (if age \<le> 12 * hour_us then 40
                           else if age \<le> 24 * hour_us then 30
                           else if age \<le> 48 * hour_us then 20
                           else 10);
          score = score + (if 500 < engagement a then 40
                           else if 200 < engagement a then 30
                           else if 100 < engagement a then 20
                           else if 50 < engagement a then 10
                           else 0);
          score = score + (if source a \<in> set high_quality_sources then 20
                           else if source a \<in> set (map fst RSS_FEEDS_NEWS) then 10
                           else 0);
          score = score + (if summary a \<noteq> [] \<and> 100 < length (summary a) then 10 else 0)
      in score)"

text \<open>
  The four point buckets as the specification words them, for comparison with
  \<open>calculate_score\<close>. The age of a record is given in microseconds.
\<close>

definition spec_recency :: "int \<Rightarrow> int" where
  "spec_recency age =
     (if age \<le> 12 * hour_us then 40 else if age \<le> 24 * hour_us then 30
      else if age \<le> 48 * hour_us then 20 else 10)"

definition spec_engagement :: "int \<Rightarrow> int" where
  "spec_engagement e =
     (if 500 < e then 40 else if 200 < e then 30 else if 100 < e then 20
      else if 50 < e then 10 else 0)"

definition spec_source_quality :: "string \<Rightarrow> int" where
  "spec_source_quality src =
     (if src \<in> set high_quality_sources then 20
      else if src \<in> fst ` set RSS_FEEDS_NEWS then 10 else 0)"

definition spec_summary_quality :: "string \<Rightarrow> int" where
  "spec_summary_quality s = (if 100 < length s then 10 else 0)"

section \<open>Deduplicator: \<open>deduplicate_articles\<close>\<close>

text \<open>\<open>str.lower\<close> on the code points below 256.\<close>

definition lower_char :: "char \<Rightarrow> char" where
  "lower_char c =
     (let n = (of_char c :: nat)
      in if (65 \<le> n \<and> n \<le> 90) \<or> (192 \<le> n \<and> n \<le> 222 \<and> n \<noteq> 215)
         then char_of (n + 32) else c)"

definition lower :: "string \<Rightarrow> string" where
  "lower s = map lower_char s"

text \<open>
  \<open>SequenceMatcher(None, a, b).ratio()\<close> of Python's \<open>difflib\<close> is \<open>2.0 * M / T\<close>, where
  \<open>M\<close> is the total size of the matching blocks the library finds between \<open>a\<close> and \<open>b\<close>
  and \<open>T = len(a) + len(b)\<close>, and \<open>1.0\<close> when \<open>T = 0\<close>. The block matching is the library's;
  it is the parameter \<open>matches\<close>. The quotient is taken exactly.
\<close>

definition calculate_ratio :: "nat \<Rightarrow> nat \<Rightarrow> real" where
  "calculate_ratio m t = (if t \<noteq> 0 then 2 * real m / real t else 1)"

definition ratio :: "(string \<Rightarrow> string \<Rightarrow> nat) \<Rightarrow> string \<Rightarrow> string \<Rightarrow> real" where
  "ratio matches a b = calculate_ratio (matches a b) (length a + length b)"

text \<open>The inner loop over \<open>seen_titles\<close>, leaving at the first title that is too similar.\<close>

fun is_duplicate :: "(string \<Rightarrow> string \<Rightarrow> nat) \<Rightarrow> string \<Rightarrow> string list \<Rightarrow> bool" where
  "is_duplicate matches t [] = False"
| "is_duplicate matches t (seen # rest) =
     (if 6 / 10 < ratio matches t seen then True else is_duplicate matches t rest)"

text \<open>One round of the outer loop on the pair \<open>(unique, seen_titles)\<close>.\<close>

definition dedup_step ::
  "(string \<Rightarrow> string \<Rightarrow> nat) \<Rightarrow> 'a article_scheme \<Rightarrow>
     'a article_scheme list \<times> string list \<Rightarrow> 'a article_scheme list \<times> string list" where
  "dedup_step matches a st =
     (let t = lower (title a)
      in if is_duplicate matches t (snd st) then st
         else (fst st @ [a], snd st @ [t]))"

definition deduplicate_articles ::
  "(string \<Rightarrow> string \<Rightarrow> nat) \<Rightarrow> 'a article_scheme list \<Rightarrow> 'a article_scheme list" where
  "deduplicate_articles matches articles = fst (fold (dedup_step matches) articles ([], []))"

section \<open>Grouping in \<open>format_html_email\<close>\<close>

text \<open>The dictionary \<open>by_category\<close> after the first loop of \<open>format_html_email\<close>.\<close>

definition by_category_of :: "'a article_scheme list \<Rightarrow> (string \<rightharpoonup> 'a article_scheme list)" where
  "by_category_of articles =
     fold (\<lambda>a by_category.
             case by_category (category a) of
               None \<Rightarrow> by_category(category a \<mapsto> [a])
             | Some xs \<Rightarrow> by_category(category a \<mapsto> xs @ [a]))
       articles Map.empty"

definition category_order :: "string list" where
  "category_order = [CATEGORY_NEW_TECH, CATEGORY_RESEARCH, CATEGORY_INDUSTRY, CATEGORY_COMMUNITY]"

text \<open>
  The sections \<open>format_html_email\<close> writes, in the order it writes them: for each category
  of \<open>category_order\<close> present in \<open>by_category\<close>, the category and the first five of its
  records. The markup around them is left out.
\<close>

definition email_sections :: "'a article_scheme list \<Rightarrow> (string \<times> 'a article_scheme list) list" where
  "email_sections articles =
     (let by_category = by_category_of articles
      in concat (map (\<lambda>c. case by_category c of
                              None \<Rightarrow> []
                            | Some cat_articles \<Rightarrow> [(c, take 5 cat_articles)])
                   category_order))"

section \<open>Example inputs\<close>

text \<open>
  A stand-in for BeautifulSoup's text extraction on plain markup: it drops every tag.
\<close>

fun drop_tags :: "bool \<Rightarrow> string \<Rightarrow> string" where
  "drop_tags in_tag [] = []"
| "drop_tags in_tag (c # cs) =
     (if c = CHR ''<'' then drop_tags True cs
      else if c = CHR ''>'' then drop_tags False cs
      else if in_tag then drop_tags True cs
      else c # drop_tags False cs)"

definition example_article :: article where
  "example_article =
     \<lparr>title = ''Show HN: a tiny LLM'', link = ''https://example.org/post'', summary = [],
      source = ''Hacker News'', category = CATEGORY_COMMUNITY, published = 0,
      engagement = 120, needs_summary = True\<rparr>"

definition long_paragraph :: string where
  "long_paragraph = ''<p>'' @ replicate 290 (CHR ''a'') @ ''</p>''"

definition paragraph_page :: response where
  "paragraph_page =
     \<lparr>status_code = 200, meta_description = None, og_description = None,
      paragraphs = Some [long_paragraph]\<rparr>"

definition meta_page :: response where
  "meta_page =
     \<lparr>status_code = 200, meta_description = Some (replicate 400 (CHR ''a'')),
      og_description = None, paragraphs = None\<rparr>"

definition paragraph_web :: web where
  "paragraph_web =
     \<lparr>requests_get = (\<lambda>url. Some paragraph_page), get_text = drop_tags False,
      completes_ms = (\<lambda>k. 1200)\<rparr>"

definition meta_web :: web where
  "meta_web =
     \<lparr>requests_get = (\<lambda>url. Some meta_page), get_text = drop_tags False,
      completes_ms = (\<lambda>k. 1200)\<rparr>"

text \<open>
  A server that keeps the request alive past the batch deadline, a link that cannot be
  fetched next to one that can.
\<close>

definition slow_web :: web where
  "slow_web =
     \<lparr>requests_get = (\<lambda>url. Some paragraph_page), get_text = drop_tags False,
      completes_ms = (\<lambda>k. 31000)\<rparr>"

definition broken_article :: article where
  "broken_article =
     \<lparr>title = ''Startup raises funding round'', link = ''https://example.net/gone'',
      summary = ''Short teaser.'', source = ''TechCrunch AI'', category = CATEGORY_INDUSTRY,
      published = 0, engagement = 0, needs_summary = True\<rparr>"

definition mixed_web :: web where
  "mixed_web =
     \<lparr>requests_get = (\<lambda>url. if url = ''https://example.org/post'' then Some paragraph_page
                              else None),
      get_text = drop_tags False, completes_ms = (\<lambda>k. 1200)\<rparr>"

text \<open>The two records of the scoring scenario; the clock reads \<open>hour_us\<close>.\<close>

definition record_a :: article where
  "record_a =
     \<lparr>title = ''Scaling laws revisited'', link = ''https://arxiv.org/abs/0000.00000'',
      summary = replicate 150 (CHR ''a''), source = ''arXiv'', category = CATEGORY_RESEARCH,
      published = 0, engagement = 600, needs_summary = False\<rparr>"

definition record_b :: article where
  "record_b =
     \<lparr>title = ''Weekend thread'', link = ''https://example.com/thread'',
      summary = [], source = ''Some Blog'', category = CATEGORY_COMMUNITY,
      published = - 59 * hour_us, engagement = 10, needs_summary = True\<rparr>"

text \<open>
  The matching-block total of two strings that are equal or share no character: the whole
  string, or nothing.
\<close>

definition same_or_disjoint :: "string \<Rightarrow> string \<Rightarrow> nat" where
  "same_or_disjoint a b = (if a = b then length a else 0)"

definition titled :: "string \<Rightarrow> article" where
  "titled t =
     \<lparr>title = t, link = [], summary = [], source = ''arXiv'', category = CATEGORY_RESEARCH,
      published = 0, engagement = 0, needs_summary = False\<rparr>"

text \<open>
  A ranked list: eight research records and one community record, by descending score.
\<close>

definition ranked :: "string \<Rightarrow> int \<Rightarrow> scored_article" where
  "ranked c s =
     \<lparr>title = ''Paper'', link = [], summary = [], source = ''arXiv'', category = c,
      published = 0, engagement = 0, needs_summary = False, score = s\<rparr>"

definition ranked_articles :: "scored_article list" where
  "ranked_articles =
     [ranked CATEGORY_RESEARCH 110, ranked CATEGORY_RESEARCH 100, ranked CATEGORY_COMMUNITY 90,
      ranked CATEGORY_RESEARCH 90, ranked CATEGORY_RESEARCH 80, ranked CATEGORY_RESEARCH 70,
      ranked CATEGORY_RESEARCH 60, ranked CATEGORY_RESEARCH 50, ranked CATEGORY_RESEARCH 40]"

section \<open>Truncator: lengths\<close>

lemma rfind_lt: "rfind s c < int (length s)"
  by (auto simp: rfind_def)

lemma takeWhile_short: "c \<in> set xs \<Longrightarrow> length (takeWhile (\<lambda>x. x \<noteq> c) xs) < length xs"
  by (induction xs) auto

lemma rfind_ge: "- 1 \<le> rfind s c"
  using takeWhile_short [of c "rev s"] by (auto simp: rfind_def)

lemma takeWhile_first:
  "i < length xs \<Longrightarrow> xs ! i = c \<Longrightarrow> length (takeWhile (\<lambda>x. x \<noteq> c) xs) \<le> i"
proof (induction xs arbitrary: i)
  case Nil
  then show ?case by simp
next
  case (Cons x xs)
  then show ?case by (cases i) auto
qed

lemma rfind_last:
  assumes i: "i < length s" and c: "s ! i = c"
  shows "int i \<le> rfind s c"
proof -
  let ?k = "length (takeWhile (\<lambda>x. x \<noteq> c) (rev s))"
  have m: "c \<in> set s" using i c by auto
  have "rev s ! (length s - Suc i) = c" using i c by (simp add: rev_nth)
  then have "?k \<le> length s - Suc i"
    using takeWhile_first [of "length s - Suc i" "rev s" c] i by simp
  then show ?thesis using m i by (simp add: rfind_def)
qed

lemma length_slice_to: "0 \<le> n \<Longrightarrow> length (slice_to s n) = min (nat n) (length s)"
  by (simp add: slice_to_def)

lemma truncate_summary_short: "int (length s) \<le> n \<Longrightarrow> truncate_summary s n = s"
  by (simp add: truncate_summary_def)

text \<open>The three ways a long text leaves \<open>truncate_summary\<close>, with the length of each.\<close>

lemma truncate_summary_long:
  assumes n: "0 < n" and long: "n < int (length s)"
  obtains
    (sentence) cp where "0 < cp" "cp < n" "truncate_summary s n = take (nat (cp + 1)) s"
  | (word) sp where "0 < sp" "sp < n" "sp = rfind (slice_to s n) (CHR '' '')"
      "truncate_summary s n = take (nat sp) s @ ''...''"
  | (raw) "rfind (slice_to s n) (CHR '' '') \<le> 0"
      "truncate_summary s n = take (nat n) s @ ''...''"
proof -
  let ?t = "slice_to s n"
  have lt: "length ?t = nat n" using assms by (simp add: slice_to_def)
  have b: "rfind ?t c < n" for c using rfind_lt [of ?t c] lt n by simp
  define cp where
    "cp = max (max (rfind ?t (CHR ''.'')) (rfind ?t (CHR ''?''))) (rfind ?t (CHR ''!''))"
  define sp where "sp = rfind ?t (CHR '' '')"
  have cp: "cp < n" unfolding cp_def using b by (simp add: max_def)
  have sp: "sp < n" unfolding sp_def using b by simp
  have ne: "s \<noteq> []" using assms by auto
  have eq: "truncate_summary s n =
     (if n < 2 * cp then slice_to s (cp + 1)
      else if 0 < sp then slice_to s sp @ ''...'' else ?t @ ''...'')"
    using assms ne unfolding truncate_summary_def cp_def sp_def Let_def by simp
  show thesis
  proof (cases "n < 2 * cp")
    case True
    then have "0 < cp" using n by simp
    moreover have "truncate_summary s n = take (nat (cp + 1)) s"
      using eq True \<open>0 < cp\<close> by (simp add: slice_to_def)
    ultimately show thesis using cp sentence by blast
  next
    case False
    show thesis
    proof (cases "0 < sp")
      case True
      then have "truncate_summary s n = take (nat sp) s @ ''...''"
        using eq False by (simp add: slice_to_def)
      then show thesis using True sp word sp_def by blast
    next
      case f: False
      then have "truncate_summary s n = take (nat n) s @ ''...''"
        using eq False n by (simp add: slice_to_def)
      then show thesis using f raw sp_def by simp
    qed
  qed
qed

lemma truncate_summary_length_le:
  assumes "0 < n"
  shows "length (truncate_summary s n) \<le> nat n + 3"
proof (cases "int (length s) \<le> n")
  case True
  then show ?thesis by (simp add: truncate_summary_short)
next
  case False
  then have long: "n < int (length s)" by simp
  show ?thesis
    using assms long by (cases rule: truncate_summary_long [of n s]) auto
qed

lemma truncate_summary_nonempty:
  assumes "0 < n" "s \<noteq> []"
  shows "truncate_summary s n \<noteq> []"
proof (cases "int (length s) \<le> n")
  case True
  then show ?thesis using assms by (simp add: truncate_summary_short)
next
  case False
  then have long: "n < int (length s)" by simp
  show ?thesis
    using assms(1) long
  proof (cases rule: truncate_summary_long [of n s])
    case (sentence cp)
    then show ?thesis using assms by simp
  qed auto
qed

text \<open>
  C3, as amended. For a positive budget \<open>n\<close>, \<open>truncate_summary s n\<close> is \<open>s\<close> itself when
  \<open>len(s) \<le> n\<close>. A longer text comes back with at most \<open>n + len("...")\<close> characters,
  whether or not its prefix \<open>s[:n]\<close> holds a space: the cut at a space still gets the
  ellipsis appended. When the prefix holds a space at a positive index the result has at
  most \<open>n + 2\<close> characters.
\<close>

theorem truncate_summary_length:
  assumes "0 < n"
  shows "(int (length s) \<le> n \<longrightarrow> truncate_summary s n = s) \<and>
         (n < int (length s) \<longrightarrow>
            int (length (truncate_summary s n)) \<le> n + int (length ''...'')) \<and>
         (n < int (length s) \<and> (\<exists>i. 0 < i \<and> int i < n \<and> s ! i = CHR '' '') \<longrightarrow>
            int (length (truncate_summary s n)) \<le> n + 2)"
proof (intro conjI impI)
  assume "int (length s) \<le> n"
  then show "truncate_summary s n = s" by (rule truncate_summary_short)
next
  assume "n < int (length s)"
  show "int (length (truncate_summary s n)) \<le> n + int (length ''...'')"
    using truncate_summary_length_le [OF assms, of s] assms by simp
next
  assume h: "n < int (length s) \<and> (\<exists>i. 0 < i \<and> int i < n \<and> s ! i = CHR '' '')"
  then obtain i where i: "0 < i" "int i < n" "s ! i = CHR '' ''" by blast
  have long: "n < int (length s)" using h by simp
  have "i < length (slice_to s n)" "slice_to s n ! i = CHR '' ''"
    using i long assms by (simp_all add: slice_to_def)
  then have sp: "int i \<le> rfind (slice_to s n) (CHR '' '')" by (rule rfind_last)
  show "int (length (truncate_summary s n)) \<le> n + 2"
    using assms long
  proof (cases rule: truncate_summary_long [of n s])
    case (sentence cp)
    then show ?thesis by simp
  next
    case (word sp)
    then show ?thesis by simp
  next
    case raw
    then show ?thesis using sp i by simp
  qed
qed

theorem truncate_summary_length_witness:
  "truncate_summary ''Fast LLM'' 10 = ''Fast LLM'' \<and>
   int (length (truncate_summary ''aaaa bbbb'' 5)) \<le> 5 + int (length ''...'') \<and>
   int (length (truncate_summary ''aa bbbbbb'' 5)) \<le> 5 + 2"
proof -
  have "\<exists>i. 0 < i \<and> int i < 5 \<and> ''aa bbbbbb'' ! i = CHR '' ''"
    by (rule exI [of _ 2]) simp
  then show ?thesis
    using truncate_summary_length [of 10 "''Fast LLM''"]
      truncate_summary_length [of 5 "''aaaa bbbb''"]
      truncate_summary_length [of 5 "''aa bbbbbb''"]
    by simp
qed

text \<open>
  The bound \<open>n\<close> claimed for a prefix with a word boundary fails: the prefix of length 5 of
  \<open>"aaaa bbbb"\<close> ends in a space, and the result has 7 characters.
\<close>

theorem truncate_summary_word_boundary_counterexample:
  "(0::int) < 5 \<and> 5 < int (length ''aaaa bbbb'') \<and> CHR '' '' \<in> set (slice_to ''aaaa bbbb'' 5) \<and>
   truncate_summary ''aaaa bbbb'' 5 = ''aaaa...'' \<and>
   \<not> int (length (truncate_summary ''aaaa bbbb'' 5)) \<le> 5"
  by (simp add: truncate_summary_def slice_to_def rfind_def)

section \<open>Enrichment: what is written back\<close>

lemma first_paragraph_find:
  "first_paragraph gt ps =
     (case find (\<lambda>p. 100 < length (clean_html gt p)) ps of
        None \<Rightarrow> []
      | Some p \<Rightarrow> truncate_summary (clean_html gt p) 280)"
  by (induction ps) (simp_all add: Let_def)

lemma fetch_article_summary_paragraph:
  assumes "requests_get w url = Some resp" "status_code resp = 200"
    "attr_content (meta_description resp) = []" "attr_content (og_description resp) = []"
    "paragraphs resp = Some ps"
  shows "fetch_article_summary w url = first_paragraph (get_text w) (take 3 ps)"
  using assms by (simp add: fetch_article_summary_def)

text \<open>
  C2, as amended. A summary that enrichment resolves from the first paragraph longer than
  100 characters among the first three is passed through \<open>truncate_summary\<close> with the
  default budget of 280 characters before it is written back to the record, so it has at
  most \<open>280 + len("...")\<close> characters; writing it clears \<open>needs_summary\<close>.
\<close>

theorem enrich_paragraph_summary_truncated:
  assumes "\<not> is_substring ''reddit.com'' (link a)"
    and "\<not> is_substring ''news.ycombinator.com'' (link a)"
    and "requests_get w (link a) = Some resp"
    and "status_code resp = 200"
    and "attr_content (meta_description resp) = []"
    and "attr_content (og_description resp) = []"
    and "paragraphs resp = Some ps"
    and "find (\<lambda>p. 100 < length (clean_html (get_text w) p)) (take 3 ps) = Some p"
  shows "summary (fetch_one w a) = truncate_summary (clean_html (get_text w) p) 280 \<and>
         length (summary (fetch_one w a)) \<le> 280 + length ''...'' \<and>
         \<not> needs_summary (fetch_one w a)"
proof -
  let ?text = "clean_html (get_text w) p"
  have "100 < length ?text"
    using assms(8) by (auto simp: find_Some_iff)
  then have ne: "?text \<noteq> []" by auto
  have s: "fetch_article_summary w (link a) = truncate_summary ?text 280"
    using assms(3-8) by (simp add: fetch_article_summary_paragraph first_paragraph_find)
  have "truncate_summary ?text 280 \<noteq> []"
    using truncate_summary_nonempty [of 280 ?text] ne by simp
  then have one: "fetch_one w a = a\<lparr>summary := truncate_summary ?text 280, needs_summary := False\<rparr>"
    using assms(1,2) s by (simp add: fetch_one_def)
  have "length (truncate_summary ?text 280) \<le> 280 + 3"
    using truncate_summary_length_le [of 280 ?text] by simp
  then show ?thesis using one by simp
qed


subsection \<open>The example pages\<close>

lemma rfind_replicate: "c \<noteq> a \<Longrightarrow> rfind (replicate n a) c = - 1"
  by (simp add: rfind_def)

lemma truncate_summary_replicate:
  assumes "0 < m" "m < n"
  shows "truncate_summary (replicate n (CHR ''a'')) (int m) = replicate m (CHR ''a'') @ ''...''"
  using assms
  by (simp add: truncate_summary_def slice_to_def rfind_replicate min_def)

lemma drop_tags_replicate:
  "drop_tags False (replicate n (CHR ''a'') @ r) = replicate n (CHR ''a'') @ drop_tags False r"
  by (induction n) simp_all

lemma collapse_ws_replicate: "collapse_ws (replicate n (CHR ''a'')) = replicate n (CHR ''a'')"
  by (induction n) (simp_all add: isspace_def)

lemma strip_replicate: "strip (replicate n (CHR ''a'')) = replicate n (CHR ''a'')"
proof -
  have "dropWhile isspace (replicate n (CHR ''a'')) = replicate n (CHR ''a'')"
    by (cases n) (simp_all add: isspace_def)
  then show ?thesis by (simp add: strip_def)
qed

lemma clean_html_paragraph:
  "clean_html (drop_tags False) long_paragraph = replicate 290 (CHR ''a'')"
proof -
  have "drop_tags False long_paragraph = drop_tags False (replicate 290 (CHR ''a'') @ ''</p>'')"
    by (simp add: long_paragraph_def)
  also have "\<dots> = replicate 290 (CHR ''a'')"
    by (simp add: drop_tags_replicate)
  finally have "drop_tags False long_paragraph = replicate 290 (CHR ''a'')" .
  moreover have "long_paragraph \<noteq> []" by (simp add: long_paragraph_def)
  ultimately show ?thesis
    by (simp add: clean_html_def collapse_ws_replicate strip_replicate)
qed

lemma clean_html_plain:
  "0 < n \<Longrightarrow> clean_html (drop_tags False) (replicate n (CHR ''a'')) = replicate n (CHR ''a'')"
  using drop_tags_replicate [of n "[]"]
  by (simp add: clean_html_def collapse_ws_replicate strip_replicate)

lemma example_link_checks:
  "\<not> is_substring ''reddit.com'' (link example_article)"
  "\<not> is_substring ''news.ycombinator.com'' (link example_article)"
  by (simp_all add: example_article_def)

lemma fetch_paragraph_web:
  "fetch_article_summary paragraph_web url = replicate 280 (CHR ''a'') @ ''...''"
  using truncate_summary_replicate [of 280 290]
  by (simp add: fetch_article_summary_def paragraph_web_def paragraph_page_def attr_content_def
      clean_html_paragraph Let_def)

lemma fetch_meta_web:
  "fetch_article_summary meta_web url = replicate 400 (CHR ''a'')"
  by (simp add: fetch_article_summary_def meta_web_def meta_page_def attr_content_def
      clean_html_plain)

text \<open>
  A paragraph of 290 characters is cut at 280, where a budget of 300 would have left it
  whole; a meta description of 400 characters is written back with all 400.
\<close>

theorem enrich_truncation_counterexample:
  "summary (fetch_one paragraph_web example_article) = replicate 280 (CHR ''a'') @ ''...'' \<and>
   truncate_summary (replicate 290 (CHR ''a'')) 300 = replicate 290 (CHR ''a'') \<and>
   summary (fetch_one paragraph_web example_article) \<noteq>
     truncate_summary (replicate 290 (CHR ''a'')) 300 \<and>
   length (summary (fetch_one meta_web example_article)) = 400 \<and>
   \<not> length (summary (fetch_one meta_web example_article)) \<le> 300 + length ''...''"
proof -
  have p: "summary (fetch_one paragraph_web example_article) = replicate 280 (CHR ''a'') @ ''...''"
    using example_link_checks by (simp add: fetch_one_def fetch_paragraph_web)
  have t: "truncate_summary (replicate 290 (CHR ''a'')) 300 = replicate 290 (CHR ''a'')"
    by (simp add: truncate_summary_short)
  have "length (replicate 280 (CHR ''a'') @ ''...'') \<noteq> length (replicate 290 (CHR ''a''))"
    by simp
  then have d: "replicate 280 (CHR ''a'') @ ''...'' \<noteq> replicate 290 (CHR ''a'')"
    by metis
  have m: "summary (fetch_one meta_web example_article) = replicate 400 (CHR ''a'')"
    using example_link_checks by (simp add: fetch_one_def fetch_meta_web)
  show ?thesis using p t d m by simp
qed

theorem enrich_paragraph_summary_truncated_witness:
  "summary (fetch_one paragraph_web example_article) =
     truncate_summary (replicate 290 (CHR ''a'')) 280 \<and>
   length (summary (fetch_one paragraph_web example_article)) \<le> 280 + length ''...'' \<and>
   \<not> needs_summary (fetch_one paragraph_web example_article)"
proof -
  have c: "clean_html (get_text paragraph_web) long_paragraph = replicate 290 (CHR ''a'')"
    using clean_html_paragraph by (simp add: paragraph_web_def)
  have f: "find (\<lambda>p. 100 < length (clean_html (get_text paragraph_web) p))
             (take 3 [long_paragraph]) = Some long_paragraph"
    by (simp add: c)
  have g: "requests_get paragraph_web (link example_article) = Some paragraph_page"
    by (simp add: paragraph_web_def)
  have h: "status_code paragraph_page = 200"
    "attr_content (meta_description paragraph_page) = []"
    "attr_content (og_description paragraph_page) = []"
    "paragraphs paragraph_page = Some [long_paragraph]"
    by (simp_all add: paragraph_page_def attr_content_def)
  show ?thesis
    using enrich_paragraph_summary_truncated [OF example_link_checks g h f]
    unfolding c .
qed

section \<open>Enrichment: failures and the deadline\<close>

lemma fold_update_length:
  "length (fold (\<lambda>i store. store[i := f (store ! i)]) is xs) = length xs"
  by (induction "is" arbitrary: xs) simp_all

lemma fold_update_nth:
  assumes "distinct is" "j < length xs"
  shows "fold (\<lambda>i store. store[i := f (store ! i)]) is xs ! j =
           (if j \<in> set is then f (xs ! j) else xs ! j)"
  using assms
proof (induction "is" arbitrary: xs)
  case Nil
  then show ?case by simp
next
  case (Cons i "is")
  let ?ys = "xs[i := f (xs ! i)]"
  have len: "j < length ?ys" using Cons.prems by simp
  have "fold (\<lambda>i store. store[i := f (store ! i)]) (i # is) xs ! j =
          fold (\<lambda>i store. store[i := f (store ! i)]) is ?ys ! j"
    by simp
  also have "\<dots> = (if j \<in> set is then f (?ys ! j) else ?ys ! j)"
    using Cons.IH [OF _ len] Cons.prems by simp
  also have "\<dots> = (if j \<in> set (i # is) then f (xs ! j) else xs ! j)"
    using Cons.prems by (cases "j = i") auto
  finally show ?case .
qed

lemma distinct_enrich_batch: "distinct (enrich_batch articles)"
  by (simp add: enrich_batch_def distinct_take)

lemma enrich_summaries_length:
  "length (articles_after (enrich_summaries w articles)) = length articles"
  by (simp add: enrich_summaries_def Let_def fold_update_length)

lemma enrich_summaries_nth:
  assumes "i < length articles"
  shows "articles_after (enrich_summaries w articles) ! i =
           (if i \<in> set (enrich_batch articles) then fetch_one w (articles ! i)
            else articles ! i)"
proof (cases "enrich_batch articles = []")
  case True
  then show ?thesis by (simp add: enrich_summaries_def)
next
  case False
  then show ?thesis
    using fold_update_nth [OF distinct_enrich_batch [of articles] assms, of "fetch_one w"]
    by (simp add: enrich_summaries_def Let_def)
qed

lemma fetch_article_summary_failed:
  "requests_get w url = None \<Longrightarrow> fetch_article_summary w url = []"
  "requests_get w url = Some resp \<Longrightarrow> status_code resp \<noteq> 200 \<Longrightarrow>
     fetch_article_summary w url = []"
  by (simp_all add: fetch_article_summary_def)

lemma fetch_one_empty: "fetch_article_summary w (link a) = [] \<Longrightarrow> fetch_one w a = a"
  by (simp add: fetch_one_def)

text \<open>
  C8. Enrichment is non-destructive on failure. Whatever the other records do and whether
  or not the call ends with an exception, after \<open>enrich_summaries\<close> a record whose fetch
  failed (an exception inside the fetch, a status other than 200) or gave the empty string
  is as it was before the call, \<open>summary\<close> and \<open>needs_summary\<close> included; the list keeps
  its length; and every record that got a task, is not a comment page and whose fetch
  gave a non-empty summary carries that summary with \<open>needs_summary\<close> cleared.
\<close>

theorem enrich_failure_local:
  "length (articles_after (enrich_summaries w articles)) = length articles \<and>
   (\<forall>i<length articles.
      requests_get w (link (articles ! i)) = None \<or>
      (\<exists>resp. requests_get w (link (articles ! i)) = Some resp \<and> status_code resp \<noteq> 200) \<or>
      fetch_article_summary w (link (articles ! i)) = [] \<longrightarrow>
      articles_after (enrich_summaries w articles) ! i = articles ! i) \<and>
   (\<forall>j<length articles.
      j \<in> set (enrich_batch articles) \<and>
      \<not> is_substring ''reddit.com'' (link (articles ! j)) \<and>
      \<not> is_substring ''news.ycombinator.com'' (link (articles ! j)) \<and>
      fetch_article_summary w (link (articles ! j)) \<noteq> [] \<longrightarrow>
      articles_after (enrich_summaries w articles) ! j =
        (articles ! j)\<lparr>summary := fetch_article_summary w (link (articles ! j)),
                        needs_summary := False\<rparr>)"
proof (intro conjI allI impI)
  show "length (articles_after (enrich_summaries w articles)) = length articles"
    by (rule enrich_summaries_length)
next
  fix i
  assume i: "i < length articles"
    and f: "requests_get w (link (articles ! i)) = None \<or>
      (\<exists>resp. requests_get w (link (articles ! i)) = Some resp \<and> status_code resp \<noteq> 200) \<or>
      fetch_article_summary w (link (articles ! i)) = []"
  from f have "fetch_article_summary w (link (articles ! i)) = []"
    using fetch_article_summary_failed by blast
  then have "fetch_one w (articles ! i) = articles ! i" by (rule fetch_one_empty)
  then show "articles_after (enrich_summaries w articles) ! i = articles ! i"
    using enrich_summaries_nth [OF i, of w] by simp
next
  fix j
  assume j: "j < length articles"
    and h: "j \<in> set (enrich_batch articles) \<and>
      \<not> is_substring ''reddit.com'' (link (articles ! j)) \<and>
      \<not> is_substring ''news.ycombinator.com'' (link (articles ! j)) \<and>
      fetch_article_summary w (link (articles ! j)) \<noteq> []"
  then show "articles_after (enrich_summaries w articles) ! j =
        (articles ! j)\<lparr>summary := fetch_article_summary w (link (articles ! j)),
                        needs_summary := False\<rparr>"
    using enrich_summaries_nth [OF j, of w] by (simp add: fetch_one_def)
qed

lemma example_batch: "enrich_batch [broken_article, example_article] = [0, 1]"
  by (simp add: enrich_batch_def broken_article_def example_article_def upt_rec)

lemma fetch_mixed_web:
  "fetch_article_summary mixed_web (link broken_article) = []"
  "fetch_article_summary mixed_web (link example_article) = replicate 280 (CHR ''a'') @ ''...''"
proof -
  show "fetch_article_summary mixed_web (link broken_article) = []"
    by (simp add: fetch_article_summary_def mixed_web_def broken_article_def)
  show "fetch_article_summary mixed_web (link example_article) = replicate 280 (CHR ''a'') @ ''...''"
    using truncate_summary_replicate [of 280 290]
    by (simp add: fetch_article_summary_def mixed_web_def example_article_def paragraph_page_def
        attr_content_def clean_html_paragraph Let_def)
qed

theorem enrich_failure_local_witness:
  "requests_get mixed_web (link broken_article) = None \<and>
   articles_after (enrich_summaries mixed_web [broken_article, example_article]) ! 0 =
     broken_article \<and>
   articles_after (enrich_summaries mixed_web [broken_article, example_article]) ! 1 =
     example_article\<lparr>summary := replicate 280 (CHR ''a'') @ ''...'', needs_summary := False\<rparr>"
proof -
  have n: "requests_get mixed_web (link broken_article) = None"
    by (simp add: mixed_web_def broken_article_def)
  have l: "(0::nat) < length [broken_article, example_article]"
    "(1::nat) < length [broken_article, example_article]"
    by simp_all
  have s: "(1::nat) \<in> set (enrich_batch [broken_article, example_article])"
    by (simp add: example_batch)
  show ?thesis
    using enrich_failure_local [of mixed_web "[broken_article, example_article]"]
      n l s example_link_checks fetch_mixed_web
    by simp
qed

text \<open>
  The call returns normally exactly when no task of the batch is still pending at the
  deadline; otherwise it ends with \<open>TimeoutError\<close>.
\<close>

lemma enrich_summaries_raised:
  "raised (enrich_summaries w articles) =
     (if \<exists>k<length (enrich_batch articles). batch_timeout_ms < completes_ms w k
      then Some TimeoutError else None)"
  by (auto simp: enrich_summaries_def Let_def list_ex_iff)

text \<open>
  C1. The claim that \<open>enrich_summaries\<close> never raises does not hold of the code: with one
  record whose fetch completes 31 seconds after the wait began, the call ends with
  \<open>TimeoutError\<close>. The task itself has run to the end by then, so the record is enriched.
\<close>

theorem enrich_deadline_raises:
  "raised (enrich_summaries slow_web [example_article]) = Some TimeoutError \<and>
   articles_after (enrich_summaries slow_web [example_article]) =
     [example_article\<lparr>summary := replicate 280 (CHR ''a'') @ ''...'', needs_summary := False\<rparr>]"
proof -
  have b: "enrich_batch [example_article] = [0]"
    by (simp add: enrich_batch_def example_article_def)
  have f: "fetch_article_summary slow_web (link example_article) =
             replicate 280 (CHR ''a'') @ ''...''"
    using truncate_summary_replicate [of 280 290]
    by (simp add: fetch_article_summary_def slow_web_def paragraph_page_def
        attr_content_def clean_html_paragraph Let_def)
  have t: "batch_timeout_ms < completes_ms slow_web 0"
    by (simp add: batch_timeout_ms_def slow_web_def)
  show ?thesis
    using example_link_checks t
    by (simp add: enrich_summaries_def b f fetch_one_def)
qed

section \<open>Scorer\<close>

lemma calculate_score_buckets:
  "calculate_score now a =
     spec_recency (now - published a) + spec_engagement (engagement a) +
     spec_source_quality (source a) + spec_summary_quality (summary a)"
  by (auto simp: calculate_score_def Let_def spec_recency_def spec_engagement_def
      spec_source_quality_def spec_summary_quality_def)

lemma spec_recency_range: "10 \<le> spec_recency d \<and> spec_recency d \<le> 40"
  by (simp add: spec_recency_def)

lemma spec_engagement_range: "0 \<le> spec_engagement e \<and> spec_engagement e \<le> 40"
  by (simp add: spec_engagement_def)

lemma spec_source_quality_range: "0 \<le> spec_source_quality s \<and> spec_source_quality s \<le> 20"
  by (simp add: spec_source_quality_def)

lemma spec_summary_quality_range: "0 \<le> spec_summary_quality s \<and> spec_summary_quality s \<le> 10"
  by (simp add: spec_summary_quality_def)

lemma spec_recency_antimono: "d1 \<le> d2 \<Longrightarrow> spec_recency d2 \<le> spec_recency d1"
  by (simp add: spec_recency_def)

lemma spec_engagement_mono: "e2 \<le> e1 \<Longrightarrow> spec_engagement e2 \<le> spec_engagement e1"
  by (simp add: spec_engagement_def)

text \<open>
  C5. \<open>calculate_score\<close> is the sum of the four buckets: recency (40 up to 12 hours, 30
  up to 24, 20 up to 48, else 10), engagement (40 above 500, 30 above 200, 20 above 100,
  10 above 50, else 0), source quality (20 on the high-quality list, 10 for a general-news
  feed, else 0) and summary quality (10 for a summary longer than 100 characters). A
  record published one hour ago with engagement 600, a high-quality source and a summary
  of 150 characters scores 110; one published 60 hours ago with engagement 10, an unlisted
  source and no summary scores 10; every score lies between 10 and 110.
\<close>

theorem calculate_score_sum:
  "calculate_score now a =
     spec_recency (now - published a) + spec_engagement (engagement a) +
     spec_source_quality (source a) + spec_summary_quality (summary a) \<and>
   (now - published a = 1 * hour_us \<and> engagement a = 600 \<and>
    source a \<in> set high_quality_sources \<and> length (summary a) = 150 \<longrightarrow>
      calculate_score now a = 110) \<and>
   (now - published a = 60 * hour_us \<and> engagement a = 10 \<and>
    source a \<notin> set high_quality_sources \<and> source a \<notin> fst ` set RSS_FEEDS_NEWS \<and>
    summary a = [] \<longrightarrow>
      calculate_score now a = 10) \<and>
   10 \<le> calculate_score now a \<and> calculate_score now a \<le> 110"
proof (intro conjI impI)
  show "calculate_score now a =
     spec_recency (now - published a) + spec_engagement (engagement a) +
     spec_source_quality (source a) + spec_summary_quality (summary a)"
    by (rule calculate_score_buckets)
next
  assume "now - published a = 1 * hour_us \<and> engagement a = 600 \<and>
    source a \<in> set high_quality_sources \<and> length (summary a) = 150"
  then show "calculate_score now a = 110"
    by (simp add: calculate_score_buckets spec_recency_def spec_engagement_def
        spec_source_quality_def spec_summary_quality_def hour_us_def)
next
  assume "now - published a = 60 * hour_us \<and> engagement a = 10 \<and>
    source a \<notin> set high_quality_sources \<and> source a \<notin> fst ` set RSS_FEEDS_NEWS \<and>
    summary a = []"
  then show "calculate_score now a = 10"
    by (simp add: calculate_score_buckets spec_recency_def spec_engagement_def
        spec_source_quality_def spec_summary_quality_def hour_us_def)
next
  show "10 \<le> calculate_score now a"
    using spec_recency_range [of "now - published a"] spec_engagement_range [of "engagement a"]
      spec_source_quality_range [of "source a"] spec_summary_quality_range [of "summary a"]
    by (simp add: calculate_score_buckets)
next
  show "calculate_score now a \<le> 110"
    using spec_recency_range [of "now - published a"] spec_engagement_range [of "engagement a"]
      spec_source_quality_range [of "source a"] spec_summary_quality_range [of "summary a"]
    by (simp add: calculate_score_buckets)
qed

theorem calculate_score_sum_witness:
  "calculate_score hour_us record_a = 110 \<and> calculate_score hour_us record_b = 10"
proof -
  have a: "hour_us - published record_a = 1 * hour_us \<and> engagement record_a = 600 \<and>
    source record_a \<in> set high_quality_sources \<and> length (summary record_a) = 150"
    by (simp add: record_a_def high_quality_sources_def)
  have b: "hour_us - published record_b = 60 * hour_us \<and> engagement record_b = 10 \<and>
    source record_b \<notin> set high_quality_sources \<and>
    source record_b \<notin> fst ` set RSS_FEEDS_NEWS \<and> summary record_b = []"
    by (simp add: record_b_def high_quality_sources_def RSS_FEEDS_NEWS_def)
  show ?thesis
    using calculate_score_sum [of hour_us record_a] calculate_score_sum [of hour_us record_b] a b
    by blast
qed

text \<open>
  C7. At one reading of the clock, of two records that differ only in \<open>engagement\<close> the one
  with the larger engagement scores at least as much, and of two records that differ only
  in \<open>published\<close> the more recent one scores at least as much.
\<close>

theorem calculate_score_monotone:
  "(e2 < e1 \<longrightarrow>
      calculate_score now (a\<lparr>engagement := e2\<rparr>) \<le> calculate_score now (a\<lparr>engagement := e1\<rparr>)) \<and>
   (p2 < p1 \<longrightarrow>
      calculate_score now (a\<lparr>published := p2\<rparr>) \<le> calculate_score now (a\<lparr>published := p1\<rparr>))"
proof (intro conjI impI)
  assume "e2 < e1"
  then show "calculate_score now (a\<lparr>engagement := e2\<rparr>) \<le> calculate_score now (a\<lparr>engagement := e1\<rparr>)"
    using spec_engagement_mono [of e2 e1] by (simp add: calculate_score_buckets)
next
  assume "p2 < p1"
  then show "calculate_score now (a\<lparr>published := p2\<rparr>) \<le> calculate_score now (a\<lparr>published := p1\<rparr>)"
    using spec_recency_antimono [of "now - p1" "now - p2"] by (simp add: calculate_score_buckets)
qed

theorem calculate_score_monotone_witness:
  "calculate_score hour_us (record_a\<lparr>engagement := 150\<rparr>) \<le>
     calculate_score hour_us (record_a\<lparr>engagement := 600\<rparr>) \<and>
   calculate_score hour_us (record_a\<lparr>published := - 30 * hour_us\<rparr>) \<le>
     calculate_score hour_us (record_a\<lparr>published := 0\<rparr>)"
  using calculate_score_monotone [of 150 600 hour_us record_a "- 30 * hour_us" 0]
  by (simp add: hour_us_def)

section \<open>Deduplicator\<close>

lemma is_duplicate_iff:
  "is_duplicate M t seen \<longleftrightarrow> (\<exists>s\<in>set seen. 6 / 10 < ratio M t s)"
  by (induction seen) auto

lemma dedup_seen_titles:
  "snd st = map (\<lambda>a. lower (title a)) (fst st) \<Longrightarrow>
   snd (fold (dedup_step M) xs st) = map (\<lambda>a. lower (title a)) (fst (fold (dedup_step M) xs st))"
proof (induction xs arbitrary: st)
  case Nil
  then show ?case by simp
next
  case (Cons a xs)
  have "snd (dedup_step M a st) = map (\<lambda>a. lower (title a)) (fst (dedup_step M a st))"
    using Cons.prems by (simp add: dedup_step_def Let_def)
  then show ?case using Cons.IH by simp
qed

lemma deduplicate_articles_snoc:
  "deduplicate_articles M (xs @ [c]) =
     deduplicate_articles M xs @
       (if \<exists>u\<in>set (deduplicate_articles M xs).
             6 / 10 < ratio M (lower (title c)) (lower (title u))
        then [] else [c])"
proof -
  let ?st = "fold (dedup_step M) xs ([], [])"
  have s: "snd ?st = map (\<lambda>a. lower (title a)) (fst ?st)"
    by (rule dedup_seen_titles) simp
  have "deduplicate_articles M (xs @ [c]) = fst (dedup_step M c ?st)"
    by (simp add: deduplicate_articles_def)
  then show ?thesis
    using s by (auto simp: dedup_step_def Let_def is_duplicate_iff deduplicate_articles_def)
qed

text \<open>The loop started on any list of seen titles.\<close>

lemma dedup_shift:
  "fold (dedup_step M) xs (u, seen) =
     (u @ fst (fold (dedup_step M) xs ([], seen)), snd (fold (dedup_step M) xs ([], seen)))"
proof (induction xs arbitrary: u seen)
  case Nil
  then show ?case by simp
next
  case (Cons a xs)
  show ?case
  proof (cases "is_duplicate M (lower (title a)) seen")
    case True
    then show ?thesis using Cons.IH [of u seen] by (simp add: dedup_step_def)
  next
    case False
    then show ?thesis
      using Cons.IH [of "u @ [a]" "seen @ [lower (title a)]"]
        Cons.IH [of "[a]" "seen @ [lower (title a)]"]
      by (simp add: dedup_step_def)
  qed
qed

lemma dedup_cons:
  "fst (fold (dedup_step M) (a # xs) ([], seen)) =
     (if is_duplicate M (lower (title a)) seen then fst (fold (dedup_step M) xs ([], seen))
      else a # fst (fold (dedup_step M) xs ([], seen @ [lower (title a)])))"
  using dedup_shift [of M xs "[a]" "seen @ [lower (title a)]"]
  by (simp add: dedup_step_def)

lemma dedup_idem:
  "fst (fold (dedup_step M) (fst (fold (dedup_step M) xs ([], seen))) ([], seen)) =
     fst (fold (dedup_step M) xs ([], seen))"
proof (induction xs arbitrary: seen)
  case Nil
  then show ?case by simp
next
  case (Cons a xs)
  show ?case
  proof (cases "is_duplicate M (lower (title a)) seen")
    case True
    then show ?thesis using Cons.IH [of seen] by (simp only: dedup_cons if_True)
  next
    case False
    then show ?thesis
      using Cons.IH [of "seen @ [lower (title a)]"] by (simp only: dedup_cons if_False)
  qed
qed

text \<open>
  C4. \<open>deduplicate_articles\<close> goes through the records in input order: the empty list stays
  empty, and a further candidate \<open>c\<close> is discarded exactly when the ratio of its lower-cased
  title with the lower-cased title of some record accepted before it is strictly greater
  than 0.6, and appended otherwise. Of two records, only the first survives when that
  ratio is above 0.6, and both survive when it is at most 0.6.
\<close>

theorem deduplicate_articles_threshold:
  "deduplicate_articles M [] = [] \<and>
   deduplicate_articles M (xs @ [c]) =
     deduplicate_articles M xs @
       (if \<exists>u\<in>set (deduplicate_articles M xs).
             6 / 10 < ratio M (lower (title c)) (lower (title u))
        then [] else [c]) \<and>
   (6 / 10 < ratio M (lower (title b)) (lower (title a)) \<longrightarrow>
      deduplicate_articles M [a, b] = [a]) \<and>
   (ratio M (lower (title b)) (lower (title a)) \<le> 6 / 10 \<longrightarrow>
      deduplicate_articles M [a, b] = [a, b])"
proof (intro conjI impI)
  show "deduplicate_articles M [] = []" by (simp add: deduplicate_articles_def)
next
  show "deduplicate_articles M (xs @ [c]) =
     deduplicate_articles M xs @
       (if \<exists>u\<in>set (deduplicate_articles M xs).
             6 / 10 < ratio M (lower (title c)) (lower (title u))
        then [] else [c])"
    by (rule deduplicate_articles_snoc)
next
  assume "6 / 10 < ratio M (lower (title b)) (lower (title a))"
  then show "deduplicate_articles M [a, b] = [a]"
    by (simp add: deduplicate_articles_def dedup_step_def)
next
  assume "ratio M (lower (title b)) (lower (title a)) \<le> 6 / 10"
  then show "deduplicate_articles M [a, b] = [a, b]"
    by (simp add: deduplicate_articles_def dedup_step_def)
qed

lemma ratio_same: "t \<noteq> [] \<Longrightarrow> ratio same_or_disjoint t t = 1"
  by (simp add: ratio_def calculate_ratio_def same_or_disjoint_def)

lemma ratio_disjoint: "a \<noteq> b \<Longrightarrow> ratio same_or_disjoint a b = 0"
  by (auto simp: ratio_def calculate_ratio_def same_or_disjoint_def)

lemma lower_examples:
  "lower ''GPT'' = ''gpt''" "lower ''gpt'' = ''gpt''" "lower ''LLM'' = ''llm''"
  by code_simp+

theorem deduplicate_articles_threshold_witness:
  "deduplicate_articles same_or_disjoint [titled ''GPT'', titled ''gpt''] = [titled ''GPT''] \<and>
   deduplicate_articles same_or_disjoint [titled ''GPT'', titled ''LLM''] =
     [titled ''GPT'', titled ''LLM'']"
proof -
  have h: "6 / 10 < ratio same_or_disjoint (lower (title (titled ''gpt''))) (lower (title (titled ''GPT'')))"
    using ratio_same [of "''gpt''"] by (simp add: titled_def lower_examples)
  have l: "ratio same_or_disjoint (lower (title (titled ''LLM''))) (lower (title (titled ''GPT''))) \<le> 6 / 10"
    using ratio_disjoint [of "''llm''" "''gpt''"] by (simp add: titled_def lower_examples)
  show ?thesis
    using deduplicate_articles_threshold [of same_or_disjoint "[]" "titled ''GPT''" "titled ''gpt''" "titled ''GPT''"]
      deduplicate_articles_threshold [of same_or_disjoint "[]" "titled ''GPT''" "titled ''LLM''" "titled ''GPT''"]
      h l
    by blast
qed

text \<open>
  C6. \<open>deduplicate_articles\<close> is idempotent: running it on its own result changes nothing,
  for every input list and whatever the library's block matching returns.
\<close>

theorem deduplicate_articles_idempotent:
  "deduplicate_articles M (deduplicate_articles M X) = deduplicate_articles M X"
  unfolding deduplicate_articles_def by (rule dedup_idem)

theorem deduplicate_articles_idempotent_witness:
  "deduplicate_articles same_or_disjoint
     (deduplicate_articles same_or_disjoint [titled ''GPT'', titled ''gpt'', titled ''LLM'']) =
   deduplicate_articles same_or_disjoint [titled ''GPT'', titled ''gpt'', titled ''LLM'']"
  by (rule deduplicate_articles_idempotent)

lemma lower_Nil_iff: "lower t = [] \<longleftrightarrow> t = []"
  by (simp add: lower_def)

lemma ratio_empty: "6 / 10 < ratio M [] []"
  by (simp add: ratio_def calculate_ratio_def)

lemma dedup_no_second_empty:
  "[] \<in> set seen \<Longrightarrow> filter (\<lambda>a. title a = []) (fst (fold (dedup_step M) xs ([], seen))) = []"
proof (induction xs arbitrary: seen)
  case Nil
  then show ?case by simp
next
  case (Cons a xs)
  show ?case
  proof (cases "title a = []")
    case True
    then have "is_duplicate M (lower (title a)) seen"
      using Cons.prems ratio_empty [of M] by (auto simp: is_duplicate_iff lower_def)
    then show ?thesis using Cons.IH [OF Cons.prems] by (simp only: dedup_cons if_True)
  next
    case False
    have "[] \<in> set (seen @ [lower (title a)])" using Cons.prems by simp
    then have "filter (\<lambda>a. title a = [])
        (fst (fold (dedup_step M) xs ([], seen @ [lower (title a)]))) = []"
      by (rule Cons.IH)
    then show ?thesis
      using False Cons.IH [OF Cons.prems] by (subst dedup_cons) simp
  qed
qed

lemma dedup_one_empty:
  "length (filter (\<lambda>a. title a = []) (fst (fold (dedup_step M) xs ([], seen)))) \<le> 1"
proof (induction xs arbitrary: seen)
  case Nil
  then show ?case by simp
next
  case (Cons a xs)
  show ?case
  proof (cases "is_duplicate M (lower (title a)) seen")
    case True
    then show ?thesis using Cons.IH [of seen] by (simp only: dedup_cons if_True)
  next
    case nd: False
    show ?thesis
    proof (cases "title a = []")
      case True
      then have "[] \<in> set (seen @ [lower (title a)])" by (simp add: lower_def)
      then have "filter (\<lambda>a. title a = [])
          (fst (fold (dedup_step M) xs ([], seen @ [lower (title a)]))) = []"
        by (rule dedup_no_second_empty)
      then show ?thesis using nd True by (subst dedup_cons) simp
    next
      case False
      then show ?thesis
        using nd Cons.IH [of "seen @ [lower (title a)]"] by (subst dedup_cons) simp
    qed
  qed
qed

text \<open>
  C10. At most one record with an empty title survives \<open>deduplicate_articles\<close>: the ratio
  of two empty strings is 1.0, above the threshold, so of two empty-titled records only
  the first is kept.
\<close>

theorem deduplicate_articles_one_empty_title:
  "length (filter (\<lambda>a. title a = []) (deduplicate_articles M articles)) \<le> 1 \<and>
   deduplicate_articles M [a\<lparr>title := []\<rparr>, b\<lparr>title := []\<rparr>] = [a\<lparr>title := []\<rparr>]"
proof
  show "length (filter (\<lambda>a. title a = []) (deduplicate_articles M articles)) \<le> 1"
    unfolding deduplicate_articles_def by (rule dedup_one_empty)
  show "deduplicate_articles M [a\<lparr>title := []\<rparr>, b\<lparr>title := []\<rparr>] = [a\<lparr>title := []\<rparr>]"
    using ratio_empty [of M]
    by (simp add: deduplicate_articles_def dedup_step_def lower_def)
qed

theorem deduplicate_articles_one_empty_title_witness:
  "deduplicate_articles same_or_disjoint [titled [], titled ''GPT'', titled []] =
     [titled [], titled ''GPT''] \<and>
   length (filter (\<lambda>a. title a = [])
     (deduplicate_articles same_or_disjoint [titled [], titled ''GPT'', titled []])) \<le> 1"
proof -
  have t: "lower (title (titled [])) = []" "lower (title (titled ''GPT'')) = ''gpt''"
    by (simp_all add: titled_def lower_examples) (simp add: lower_def)
  have r: "ratio same_or_disjoint ''gpt'' [] = 0" "ratio same_or_disjoint [] [] = 1"
    by (simp_all add: ratio_def calculate_ratio_def same_or_disjoint_def)
  have "deduplicate_articles same_or_disjoint [titled [], titled ''GPT'', titled []] =
     [titled [], titled ''GPT'']"
    by (simp add: deduplicate_articles_def dedup_step_def t r)
  moreover have "length (filter (\<lambda>a. title a = [])
     (deduplicate_articles same_or_disjoint [titled [], titled ''GPT'', titled []])) \<le> 1"
    using deduplicate_articles_one_empty_title
      [of same_or_disjoint "[titled [], titled ''GPT'', titled []]" "titled []" "titled []"]
    by (rule conjunct1)
  ultimately show ?thesis by (rule conjI)
qed

section \<open>Grouping\<close>

lemma by_category_of_snoc:
  "by_category_of (xs @ [a]) =
     (case by_category_of xs (category a) of
        None \<Rightarrow> (by_category_of xs)(category a \<mapsto> [a])
      | Some ys \<Rightarrow> (by_category_of xs)(category a \<mapsto> ys @ [a]))"
  unfolding by_category_of_def by simp

lemma by_category_of_filter:
  "by_category_of xs c =
     (if \<exists>a\<in>set xs. category a = c then Some (filter (\<lambda>a. category a = c) xs) else None)"
proof (induction xs rule: rev_induct)
  case Nil
  then show ?case by (simp add: by_category_of_def)
next
  case (snoc a xs)
  show ?case
  proof (cases "category a = c")
    case True
    then show ?thesis
      using snoc.IH by (auto simp: by_category_of_snoc split: option.splits)
  next
    case False
    then show ?thesis
      using snoc.IH by (auto simp: by_category_of_snoc split: option.splits)
  qed
qed

lemma email_sections_eq:
  "email_sections articles =
     map (\<lambda>c. (c, take 5 (filter (\<lambda>a. category a = c) articles)))
       (filter (\<lambda>c. \<exists>a\<in>set articles. category a = c) category_order)"
proof -
  have "concat (map (\<lambda>c. case by_category_of articles c of
                              None \<Rightarrow> []
                            | Some cat_articles \<Rightarrow> [(c, take 5 cat_articles)]) cs) =
        map (\<lambda>c. (c, take 5 (filter (\<lambda>a. category a = c) articles)))
          (filter (\<lambda>c. \<exists>a\<in>set articles. category a = c) cs)" for cs
    by (induction cs) (simp_all add: by_category_of_filter)
  then show ?thesis by (simp add: email_sections_def)
qed

lemma sorted_wrt_take_drop:
  assumes "sorted_wrt P xs" "k \<in> set (take n xs)" "d \<in> set (drop n xs)"
  shows "P k d"
proof -
  have "sorted_wrt P (take n xs @ drop n xs)" using assms(1) by simp
  then show ?thesis using assms(2,3) unfolding sorted_wrt_append by blast
qed

lemma sorted_wrt_take: "sorted_wrt P xs \<Longrightarrow> sorted_wrt P (take n xs)"
proof -
  assume "sorted_wrt P xs"
  then have "sorted_wrt P (take n xs @ drop n xs)" by simp
  then show ?thesis unfolding sorted_wrt_append by blast
qed

text \<open>
  C9. The sections of the digest are the categories New Technology, Research,
  Industry & Macro, Community Highlights, in that order, without those that have no record.
  A section holds the first five records of its category in input order, at least one
  and at most five. When the input is sorted by descending score, the records of a
  section are in descending score order and none of the records left out of it scores
  higher than one that is kept.
\<close>

theorem email_sections_grouping:
  "map fst (email_sections articles) =
     filter (\<lambda>c. \<exists>a\<in>set articles. category a = c)
       [CATEGORY_NEW_TECH, CATEGORY_RESEARCH, CATEGORY_INDUSTRY, CATEGORY_COMMUNITY] \<and>
   (\<forall>(c, kept)\<in>set (email_sections articles).
      kept = take 5 (filter (\<lambda>a. category a = c) articles) \<and> kept \<noteq> [] \<and> length kept \<le> 5 \<and>
      (sorted_wrt (\<lambda>a b. score b \<le> score a) articles \<longrightarrow>
         sorted_wrt (\<lambda>a b. score b \<le> score a) kept \<and>
         (\<forall>k\<in>set kept. \<forall>d\<in>set (drop 5 (filter (\<lambda>a. category a = c) articles)).
            score d \<le> score k)))"
proof (intro conjI ballI)
  show "map fst (email_sections articles) =
     filter (\<lambda>c. \<exists>a\<in>set articles. category a = c)
       [CATEGORY_NEW_TECH, CATEGORY_RESEARCH, CATEGORY_INDUSTRY, CATEGORY_COMMUNITY]"
    by (simp add: email_sections_eq category_order_def comp_def)
next
  fix x
  assume x: "x \<in> set (email_sections articles)"
  obtain c kept where ck: "x = (c, kept)" by (cases x)
  let ?bucket = "filter (\<lambda>a. category a = c) articles"
  have k: "kept = take 5 ?bucket" and ex: "\<exists>a\<in>set articles. category a = c"
    using x ck by (auto simp: email_sections_eq)
  have ne: "?bucket \<noteq> []" using ex by (auto simp: filter_empty_conv)
  then have kne: "kept \<noteq> []" using k by simp
  have len: "length kept \<le> 5" using k by simp
  have srt: "sorted_wrt (\<lambda>a b. score b \<le> score a) kept \<and>
         (\<forall>k\<in>set kept. \<forall>d\<in>set (drop 5 ?bucket). score d \<le> score k)"
    if s: "sorted_wrt (\<lambda>a b. score b \<le> score a) articles"
  proof -
    have b: "sorted_wrt (\<lambda>a b. score b \<le> score a) ?bucket"
      using s by (rule sorted_wrt_filter)
    show ?thesis
      using sorted_wrt_take [OF b, of 5] sorted_wrt_take_drop [OF b, of _ 5] k by blast
  qed
  show "case x of (c, kept) \<Rightarrow>
      kept = take 5 (filter (\<lambda>a. category a = c) articles) \<and> kept \<noteq> [] \<and> length kept \<le> 5 \<and>
      (sorted_wrt (\<lambda>a b. score b \<le> score a) articles \<longrightarrow>
         sorted_wrt (\<lambda>a b. score b \<le> score a) kept \<and>
         (\<forall>k\<in>set kept. \<forall>d\<in>set (drop 5 (filter (\<lambda>a. category a = c) articles)).
            score d \<le> score k))"
    using ck k kne len srt by simp
qed

lemma categories_distinct:
  "CATEGORY_RESEARCH \<noteq> CATEGORY_COMMUNITY" "CATEGORY_RESEARCH \<noteq> CATEGORY_NEW_TECH"
  "CATEGORY_RESEARCH \<noteq> CATEGORY_INDUSTRY" "CATEGORY_COMMUNITY \<noteq> CATEGORY_NEW_TECH"
  "CATEGORY_COMMUNITY \<noteq> CATEGORY_INDUSTRY" "CATEGORY_NEW_TECH \<noteq> CATEGORY_INDUSTRY"
  by (simp_all add: CATEGORY_RESEARCH_def CATEGORY_COMMUNITY_def CATEGORY_NEW_TECH_def
      CATEGORY_INDUSTRY_def)

lemma category_ranked: "category (ranked c s) = c" "score (ranked c s) = s"
  by (simp_all add: ranked_def)

lemma ranked_sections:
  "email_sections ranked_articles =
     [(CATEGORY_RESEARCH,
        [ranked CATEGORY_RESEARCH 110, ranked CATEGORY_RESEARCH 100, ranked CATEGORY_RESEARCH 90,
         ranked CATEGORY_RESEARCH 80, ranked CATEGORY_RESEARCH 70]),
      (CATEGORY_COMMUNITY, [ranked CATEGORY_COMMUNITY 90])]"
  using categories_distinct categories_distinct [symmetric]
  by (simp add: email_sections_eq category_order_def ranked_articles_def category_ranked)

theorem email_sections_grouping_witness:
  "sorted_wrt (\<lambda>a b. score b \<le> score a) ranked_articles \<and>
   map fst (email_sections ranked_articles) = [CATEGORY_RESEARCH, CATEGORY_COMMUNITY] \<and>
   email_sections ranked_articles =
     [(CATEGORY_RESEARCH,
        [ranked CATEGORY_RESEARCH 110, ranked CATEGORY_RESEARCH 100, ranked CATEGORY_RESEARCH 90,
         ranked CATEGORY_RESEARCH 80, ranked CATEGORY_RESEARCH 70]),
      (CATEGORY_COMMUNITY, [ranked CATEGORY_COMMUNITY 90])] \<and>
   sorted_wrt (\<lambda>a b. score b \<le> score a)
     (take 5 (filter (\<lambda>a. category a = CATEGORY_RESEARCH) ranked_articles))"
proof -
  have s: "sorted_wrt (\<lambda>a b. score b \<le> score a) ranked_articles"
    by (simp add: ranked_articles_def category_ranked)
  have m: "(CATEGORY_RESEARCH,
        [ranked CATEGORY_RESEARCH 110, ranked CATEGORY_RESEARCH 100, ranked CATEGORY_RESEARCH 90,
         ranked CATEGORY_RESEARCH 80, ranked CATEGORY_RESEARCH 70]) \<in> set (email_sections ranked_articles)"
    by (simp add: ranked_sections)
  have g: "sorted_wrt (\<lambda>a b. score b \<le> score a)
     (take 5 (filter (\<lambda>a. category a = CATEGORY_RESEARCH) ranked_articles))"
    using email_sections_grouping [of ranked_articles] s m by fastforce
  have f: "map fst (email_sections ranked_articles) = [CATEGORY_RESEARCH, CATEGORY_COMMUNITY]"
    by (simp add: ranked_sections)
  show ?thesis using s f g ranked_sections by simp
qed

end
